theory Spec2Isabelle
  imports Complex_Main "HOL-Library.Word"
begin

section \<open>Data model of the prediction game (PredictionGame.tsx)\<close>

text \<open>
  The component keeps one \<open>GameState\<close> object and changes it only through functional
  updates \<open>setGameState(prev => ...)\<close>. Every such update is modelled as a function from
  the previous state to the next one. JavaScript numbers that only ever hold integers
  (seconds, drawn numbers, timestamps) are \<open>int\<close>; the payout multipliers 1.9, 2.8 and
  9.0 are the rationals 19/10, 28/10 and 9 in \<open>real\<close>.
\<close>

datatype GameMode = Demo | Live

text \<open>\<open>type RoundDuration = 10 | 15 | 20\<close>: a number at run time; \<open>allowedDuration\<close>
  records the three values the type admits.\<close>

type_synonym RoundDuration = int

definition allowedDuration :: "RoundDuration \<Rightarrow> bool" where
  "allowedDuration d = (d = 10 \<or> d = 15 \<or> d = 20)"

datatype Color = Red | Green | Blue

text \<open>\<open>type PredictionType = "big" | "small" | "red" | "green" | "blue" | number\<close>\<close>

datatype PredictionType = Big | Small | PColor Color | Num int

datatype GamePhase = Betting | Resolving | ShowingResult

datatype Category = CatSize | CatColor | CatNumber

record Prediction =
  type :: PredictionType
  category :: Category
  multiplier :: real

record RoundResult =
  number :: int
  color :: Color
  timestamp :: int
  duration :: RoundDuration

record BettingActivity =
  activity_id :: string
  playerName :: string
  betType :: string
  amount :: int
  activity_timestamp :: int

record Round =
  duration :: RoundDuration
  timeRemaining :: int
  phase :: GamePhase

record Settings =
  soundEnabled :: bool
  animationsEnabled :: bool

record GameState =
  currentRound :: Round
  activePredictions :: "Prediction list"
  lockedPredictions :: "Prediction list"
  lastResult :: "RoundResult option"
  history :: "RoundResult list"
  settings :: Settings
  mode :: GameMode
  selectedDuration :: RoundDuration
  bettingActivity :: "BettingActivity list"

text \<open>The argument of \<open>useState\<close>: the state the machine starts in.\<close>

definition initialState :: GameState where
  "initialState =
     \<lparr> currentRound = \<lparr> Round.duration = 10, timeRemaining = 10, phase = Betting \<rparr>,
       activePredictions = [],
       lockedPredictions = [],
       lastResult = None,
       history = [],
       settings = \<lparr> soundEnabled = True, animationsEnabled = True \<rparr>,
       mode = Demo,
       selectedDuration = 10,
       bettingActivity = [] \<rparr>"

text \<open>The handlers signal acceptance and rejection through toasts; the toast a handler
  raises is returned next to the state, \<open>None\<close> when it raises none.\<close>

datatype message =
    BettingClosed
  | SelectAtLeastOne
  | TimeIsUp
  | PredictionsPlaced nat
  | DurationChanged RoundDuration
  | Winner nat real
  | TryAgain

datatype toast = ToastError message | ToastSuccess message

section \<open>Prediction catalog\<close>

record Multipliers =
  m_big :: real
  m_small :: real
  m_red :: real
  m_green :: real
  m_blue :: real
  m_number :: real

definition PREDICTION_MULTIPLIERS :: Multipliers where
  "PREDICTION_MULTIPLIERS =
     \<lparr> m_big = 19 / 10, m_small = 19 / 10,
       m_red = 28 / 10, m_green = 28 / 10, m_blue = 28 / 10,
       m_number = 9 \<rparr>"

text \<open>The \<open>if\<close> chain of \<open>addPrediction\<close> that derives the category from the kind.\<close>

fun categoryOf :: "PredictionType \<Rightarrow> Category" where
  "categoryOf t =
     (if t = Big \<or> t = Small then CatSize
      else if t = PColor Red \<or> t = PColor Green \<or> t = PColor Blue then CatColor
      else CatNumber)"

text \<open>\<open>typeof type === "number" ? PREDICTION_MULTIPLIERS.number :
  PREDICTION_MULTIPLIERS[type]\<close>\<close>

fun multiplierOf :: "PredictionType \<Rightarrow> real" where
  "multiplierOf (Num n) = m_number PREDICTION_MULTIPLIERS"
| "multiplierOf Big = m_big PREDICTION_MULTIPLIERS"
| "multiplierOf Small = m_small PREDICTION_MULTIPLIERS"
| "multiplierOf (PColor Red) = m_red PREDICTION_MULTIPLIERS"
| "multiplierOf (PColor Green) = m_green PREDICTION_MULTIPLIERS"
| "multiplierOf (PColor Blue) = m_blue PREDICTION_MULTIPLIERS"

section \<open>Random outcome generator\<close>

text \<open>
  JavaScript numbers are IEEE 754 doubles. A finite double that is not negative is
  \<open>mantissa * 2 ^ exponent\<close> with a mantissa of at most 53 bits and an exponent from
  -1074 to 971; several pairs may stand for one number.
\<close>

record double =
  mantissa :: nat
  exponent :: int

definition isDouble :: "double \<Rightarrow> bool" where
  "isDouble d = (mantissa d < 2 ^ 53 \<and> - 1074 \<le> exponent d \<and> exponent d \<le> 971)"

text \<open>By how many bits a natural number is longer than 53 bits.\<close>

function excess :: "nat \<Rightarrow> nat" where
  "excess M = (if M < 2 ^ 53 then 0 else Suc (excess (M div 2)))"
  by pat_completeness auto
termination
  by (relation "measure (\<lambda>M. M)") auto

declare excess.simps [simp del]

text \<open>\<open>M / 2 ^ s\<close> rounded to the nearest natural number, a tie to the even one.\<close>

definition roundHalfEven :: "nat \<Rightarrow> nat \<Rightarrow> nat" where
  "roundHalfEven M s =
     (if s = 0 then M
      else let q = M div 2 ^ s; r = M mod 2 ^ s; h = 2 ^ (s - 1)
           in if r < h then q
              else if h < r then q + 1
              else if even q then q else q + 1)"

text \<open>
  The magnitude of the product \<open>u * n\<close> as the operator \<open>*\<close> returns it, for a double
  \<open>u\<close> and a natural number \<open>n\<close> below 9007199254740992, the 53rd power of 2 (which a double holds exactly): the
  exact product \<open>mantissa u * n * 2 ^ exponent u\<close> rounded to 53 bits, to nearest, ties
  to even. The exponent only grows, so nothing underflows; for \<open>u\<close> below 1 nothing
  overflows.
\<close>

definition multiply :: "double \<Rightarrow> nat \<Rightarrow> double" where
  "multiply u n =
     (let M = mantissa u * n; s = excess M
      in \<lparr> mantissa = roundHalfEven M s, exponent = exponent u + int s \<rparr>)"

text \<open>\<open>Math.floor\<close> of the double of magnitude \<open>d\<close>, negative if \<open>neg\<close>.\<close>

definition mathFloor :: "bool \<Rightarrow> double \<Rightarrow> int" where
  "mathFloor neg d =
     (let a = (if neg then - int (mantissa d) else int (mantissa d))
      in if 0 \<le> exponent d then a * 2 ^ nat (exponent d)
         else a div 2 ^ nat (- exponent d))"

text \<open>
  \<open>getRandomInt\<close> draws from \<open>window.crypto.getRandomValues\<close> (one \<open>Uint32\<close>) when
  that exists and from \<open>Math.random()\<close> otherwise. The draw is an input of the model:
  \<open>Crypto w\<close> is the 32-bit value read, \<open>MathRandom u\<close> the double returned by
  \<open>Math.random()\<close>. On the second path the result is \<open>Math.floor\<close> of the rounded
  product \<open>Math.random() * max\<close>; \<open>max\<close> is 10 or 3 at the two calls.
\<close>

datatype entropy = Crypto "32 word" | MathRandom double

fun getRandomInt :: "entropy \<Rightarrow> int \<Rightarrow> int" where
  "getRandomInt (Crypto w) mx = uint w mod mx"
| "getRandomInt (MathRandom u) mx = mathFloor (mx < 0) (multiply u (nat \<bar>mx\<bar>))"

definition colors :: "Color list" where
  "colors = [Red, Green, Blue]"

text \<open>\<open>generateResult\<close>: two independent draws, the clock, and the duration of the
  current round.\<close>

definition generateResult :: "entropy \<Rightarrow> entropy \<Rightarrow> int \<Rightarrow> GameState \<Rightarrow> RoundResult" where
  "generateResult e1 e2 now s =
     \<lparr> number = getRandomInt e1 10,
       color = colors ! nat (getRandomInt e2 3),
       timestamp = now,
       RoundResult.duration = Round.duration (currentRound s) \<rparr>"

section \<open>Win evaluator\<close>

definition isWin :: "RoundResult \<Rightarrow> Prediction \<Rightarrow> bool" where
  "isWin result prediction =
     (if category prediction = CatSize then
        (type prediction = Big \<and> number result \<ge> 5) \<or>
        (type prediction = Small \<and> number result < 5)
      else if category prediction = CatColor then
        type prediction = PColor (color result)
      else if category prediction = CatNumber then
        type prediction = Num (number result)
      else False)"

text \<open>The \<open>forEach\<close> loop pushing the winning predictions, in order.\<close>

definition checkWinnings :: "RoundResult \<Rightarrow> Prediction list \<Rightarrow> Prediction list" where
  "checkWinnings result predictions =
     foldl (\<lambda>winners prediction.
              if isWin result prediction then winners @ [prediction] else winners)
           [] predictions"

text \<open>The winning rule in the specification's words, to compare \<open>checkWinnings\<close> with.\<close>

definition winsSpec :: "RoundResult \<Rightarrow> Prediction \<Rightarrow> bool" where
  "winsSpec r p =
     ((category p = CatSize \<and> type p = Big \<and> number r \<ge> 5) \<or>
      (category p = CatSize \<and> type p = Small \<and> number r < 5) \<or>
      (category p = CatColor \<and> type p = PColor (color r)) \<or>
      (category p = CatNumber \<and> type p = Num (number r)))"

section \<open>Round state machine\<close>

definition startNewRound :: "GameState \<Rightarrow> GameState" where
  "startNewRound prev =
     prev\<lparr> currentRound :=
             \<lparr> Round.duration = selectedDuration prev,
               timeRemaining = selectedDuration prev,
               phase = Betting \<rparr>,
           activePredictions := [],
           lockedPredictions := [],
           bettingActivity := [] \<rparr>"

definition changeDuration :: "RoundDuration \<Rightarrow> GameState \<Rightarrow> toast option \<times> GameState" where
  "changeDuration newDuration prev =
     (Some (ToastSuccess (DurationChanged newDuration)),
      prev\<lparr> selectedDuration := newDuration,
            currentRound :=
              (if phase (currentRound prev) = Betting
               then (currentRound prev)\<lparr> Round.duration := newDuration,
                                         timeRemaining := newDuration \<rparr>
               else currentRound prev) \<rparr>)"

text \<open>\<open>endRound\<close>: the result is generated, the winners among the locked predictions
  decide the toast, and the state update stores the result. The 3 s timer that calls
  \<open>startNewRound\<close> is part of the scheduling below.\<close>

definition endRound :: "entropy \<Rightarrow> entropy \<Rightarrow> int \<Rightarrow> GameState \<Rightarrow> toast option \<times> GameState" where
  "endRound e1 e2 now s =
     (let result = generateResult e1 e2 now s;
          winners = checkWinnings result (lockedPredictions s);
          s' = s\<lparr> currentRound := (currentRound s)\<lparr> phase := ShowingResult \<rparr>,
                  lastResult := Some result,
                  history := result # take 9 (history s) \<rparr>
      in (if length winners > 0
          then Some (ToastSuccess
                 (Winner (length winners)
                    (foldl (\<lambda>sum w. sum + multiplier w) 0 winners)))
          else if length (lockedPredictions s) > 0 then Some (ToastError TryAgain)
          else None,
          s'))"

text \<open>The callback of the one-second interval.\<close>

definition tick :: "GameState \<Rightarrow> GameState" where
  "tick prev =
     (let newTime = timeRemaining (currentRound prev) - 1
      in if newTime \<le> 0
         then prev\<lparr> currentRound := (currentRound prev)\<lparr> timeRemaining := 0,
                                                            phase := Resolving \<rparr>,
                    lockedPredictions := activePredictions prev \<rparr>
         else prev\<lparr> currentRound := (currentRound prev)\<lparr> timeRemaining := newTime \<rparr> \<rparr>)"

definition addPrediction :: "PredictionType \<Rightarrow> GameState \<Rightarrow> toast option \<times> GameState" where
  "addPrediction t s =
     (if phase (currentRound s) \<noteq> Betting \<or> timeRemaining (currentRound s) = 0
      then (Some (ToastError BettingClosed), s)
      else
        (let cat = categoryOf t;
             mult = multiplierOf t;
             filtered = filter (\<lambda>p. category p \<noteq> cat) (activePredictions s)
         in (None,
             s\<lparr> activePredictions :=
                  filtered @ [\<lparr> type = t, category = cat, multiplier = mult \<rparr>] \<rparr>)))"

definition placePredictions :: "GameState \<Rightarrow> toast option \<times> GameState" where
  "placePredictions s =
     (if length (activePredictions s) = 0
      then (Some (ToastError SelectAtLeastOne), s)
      else if timeRemaining (currentRound s) = 0
      then (Some (ToastError TimeIsUp), s)
      else (Some (ToastSuccess (PredictionsPlaced (length (activePredictions s)))),
            s\<lparr> lockedPredictions := activePredictions s \<rparr>))"

definition clearPredictions :: "GameState \<Rightarrow> GameState" where
  "clearPredictions prev = prev\<lparr> activePredictions := [] \<rparr>"

text \<open>The Clear button: \<open>onClick={clearPredictions}\<close> with
  \<open>disabled={activePredictions.length === 0 || phase !== "betting"}\<close>. A click on a
  disabled button calls no handler.\<close>

definition clearDisabled :: "GameState \<Rightarrow> bool" where
  "clearDisabled s =
     (length (activePredictions s) = 0 \<or> phase (currentRound s) \<noteq> Betting)"

definition clickClear :: "GameState \<Rightarrow> GameState" where
  "clickClear s = (if clearDisabled s then s else clearPredictions s)"

text \<open>The fake activity feed and the two settings switches.\<close>

definition addActivity :: "BettingActivity \<Rightarrow> GameState \<Rightarrow> GameState" where
  "addActivity newActivity prev =
     prev\<lparr> bettingActivity := newActivity # take 4 (bettingActivity prev) \<rparr>"

definition setSound :: "bool \<Rightarrow> GameState \<Rightarrow> GameState" where
  "setSound checked prev = prev\<lparr> settings := (settings prev)\<lparr> soundEnabled := checked \<rparr> \<rparr>"

definition setAnimations :: "bool \<Rightarrow> GameState \<Rightarrow> GameState" where
  "setAnimations checked prev =
     prev\<lparr> settings := (settings prev)\<lparr> animationsEnabled := checked \<rparr> \<rparr>"

section \<open>Scheduling\<close>

text \<open>
  Everything that changes the state: the three timers and the user's intents. The draw and
  the clock reading that \<open>endRound\<close> consumes travel with its event.
\<close>

datatype event =
    Tick
  | EndRound entropy entropy int
  | StartNewRound
  | AddPrediction PredictionType
  | PlacePredictions
  | ClearPredictions
  | ChangeDuration RoundDuration
  | Activity BettingActivity
  | SetSound bool
  | SetAnimations bool

fun apply_event :: "event \<Rightarrow> GameState \<Rightarrow> GameState" where
  "apply_event Tick s = tick s"
| "apply_event (EndRound e1 e2 now) s = snd (endRound e1 e2 now s)"
| "apply_event StartNewRound s = startNewRound s"
| "apply_event (AddPrediction t) s = snd (addPrediction t s)"
| "apply_event PlacePredictions s = snd (placePredictions s)"
| "apply_event ClearPredictions s = clearPredictions s"
| "apply_event (ChangeDuration d) s = snd (changeDuration d s)"
| "apply_event (Activity a) s = addActivity a s"
| "apply_event (SetSound b) s = setSound b s"
| "apply_event (SetAnimations b) s = setAnimations b s"

text \<open>
  When an event can occur. The timer effect arms the one-second interval only while the
  phase is betting and clears it when the phase changes; it arms the 1.5 s timeout of
  \<open>endRound\<close> on entering resolving; \<open>endRound\<close> arms the 3 s timeout of
  \<open>startNewRound\<close> as it enters showing-result. The activity interval runs while betting
  with time left. The handlers carry their own guards and may be called in any state; a
  duration is one of the three the type admits.
\<close>

fun enabled :: "event \<Rightarrow> GameState \<Rightarrow> bool" where
  "enabled Tick s = (phase (currentRound s) = Betting)"
| "enabled (EndRound e1 e2 now) s = (phase (currentRound s) = Resolving)"
| "enabled StartNewRound s = (phase (currentRound s) = ShowingResult)"
| "enabled (Activity a) s =
     (phase (currentRound s) = Betting \<and> timeRemaining (currentRound s) > 0)"
| "enabled (ChangeDuration d) s = allowedDuration d"
| "enabled e s = True"

inductive reachable :: "GameState \<Rightarrow> bool" where
  reachable_init: "reachable initialState"
| reachable_step: "reachable s \<Longrightarrow> enabled e s \<Longrightarrow> reachable (apply_event e s)"

text \<open>Running a list of events, and whether each was enabled when it occurred.\<close>

fun run :: "event list \<Rightarrow> GameState \<Rightarrow> GameState" where
  "run [] s = s"
| "run (e # es) s = run es (apply_event e s)"

fun admissible :: "event list \<Rightarrow> GameState \<Rightarrow> bool" where
  "admissible [] s = True"
| "admissible (e # es) s = (enabled e s \<and> admissible es (apply_event e s))"

text \<open>The results generated along a run, oldest first.\<close>

fun results :: "event list \<Rightarrow> GameState \<Rightarrow> RoundResult list" where
  "results [] s = []"
| "results (EndRound e1 e2 now # es) s =
     generateResult e1 e2 now s # results es (apply_event (EndRound e1 e2 now) s)"
| "results (e # es) s = results es (apply_event e s)"

section \<open>Properties the claims speak of\<close>

text \<open>At most one prediction per category.\<close>

definition onePerCategory :: "Prediction list \<Rightarrow> bool" where
  "onePerCategory ps = distinct (map category ps)"

text \<open>What \<open>Math.random()\<close> promises of its value: a double that is at least 0 and
  less than 1. A \<open>Uint32\<close> is any 32-bit word.\<close>

definition belowOne :: "double \<Rightarrow> bool" where
  "belowOne u =
     (isDouble u \<and>
      (mantissa u = 0 \<or> (exponent u < 0 \<and> mantissa u < 2 ^ nat (- exponent u))))"

fun validEntropy :: "entropy \<Rightarrow> bool" where
  "validEntropy (Crypto w) = True"
| "validEntropy (MathRandom u) = belowOne u"

text \<open>How many of the 4294967296 equally likely \<open>Uint32\<close> values the crypto path sends to
  \<open>k\<close>: the draw is uniform exactly when these counts agree over the target range.\<close>

definition preimages :: "int \<Rightarrow> int \<Rightarrow> nat" where
  "preimages mx k = card {w :: 32 word. getRandomInt (Crypto w) mx = k}"

text \<open>
  The fallback path when \<open>Math.random()\<close> derives its value from \<open>n\<close> fair random bits:
  \<open>gen i\<close> is the double returned for the bit pattern \<open>i\<close>, each of the \<open>2 ^ n\<close>
  patterns being equally likely. \<open>outcomes n gen mx k\<close> counts the patterns that
  \<open>getRandomInt\<close> sends to \<open>k\<close>.
\<close>

definition validGenerator :: "nat \<Rightarrow> (nat \<Rightarrow> double) \<Rightarrow> bool" where
  "validGenerator n gen = (\<forall>i < 2 ^ n. belowOne (gen i))"

definition outcomes :: "nat \<Rightarrow> (nat \<Rightarrow> double) \<Rightarrow> int \<Rightarrow> int \<Rightarrow> nat" where
  "outcomes n gen mx k = card {i. i < 2 ^ n \<and> getRandomInt (MathRandom (gen i)) mx = k}"

text \<open>A generator of 53 bits: the multiples of the 53rd power of 1/2 below 1.\<close>

definition grid53 :: "nat \<Rightarrow> double" where
  "grid53 i = \<lparr> mantissa = i, exponent = - 53 \<rparr>"

text \<open>The doubles written 0.3 and 0.7 in JavaScript.\<close>

definition point3 :: double where
  "point3 = \<lparr> mantissa = 5404319552844595, exponent = - 54 \<rparr>"

definition point7 :: double where
  "point7 = \<lparr> mantissa = 6305039478318694, exponent = - 53 \<rparr>"

text \<open>Two runs from the initial state used as concrete inputs: a bet on big, and the
  same bet followed by the ten ticks that close the first round.\<close>

definition betPlaced :: "event list" where
  "betPlaced = [AddPrediction Big]"

definition betThenTimeout :: "event list" where
  "betThenTimeout =
     [AddPrediction Big, Tick, Tick, Tick, Tick, Tick, Tick, Tick, Tick, Tick, Tick]"

text \<open>Eleven resolutions in a row; the clock reading numbers them 0 to 10.\<close>

definition elevenRounds :: "event list" where
  "elevenRounds =
     [EndRound (Crypto 0) (Crypto 0) 0, EndRound (Crypto 1) (Crypto 1) 1,
      EndRound (Crypto 2) (Crypto 2) 2, EndRound (Crypto 3) (Crypto 3) 3,
      EndRound (Crypto 4) (Crypto 4) 4, EndRound (Crypto 5) (Crypto 5) 5,
      EndRound (Crypto 6) (Crypto 6) 6, EndRound (Crypto 7) (Crypto 7) 7,
      EndRound (Crypto 8) (Crypto 8) 8, EndRound (Crypto 9) (Crypto 9) 9,
      EndRound (Crypto 10) (Crypto 10) 10]"

section \<open>Concrete states\<close>

lemma betPlaced_state:
  "run betPlaced initialState =
     \<lparr> currentRound = \<lparr> Round.duration = 10, timeRemaining = 10, phase = Betting \<rparr>,
       activePredictions = [\<lparr> type = Big, category = CatSize, multiplier = 19 / 10 \<rparr>],
       lockedPredictions = [],
       lastResult = None,
       history = [],
       settings = \<lparr> soundEnabled = True, animationsEnabled = True \<rparr>,
       mode = Demo,
       selectedDuration = 10,
       bettingActivity = [] \<rparr>"
  by (simp add: betPlaced_def initialState_def addPrediction_def PREDICTION_MULTIPLIERS_def)

lemma betThenTimeout_state:
  "run betThenTimeout initialState =
     \<lparr> currentRound = \<lparr> Round.duration = 10, timeRemaining = 0, phase = Resolving \<rparr>,
       activePredictions = [\<lparr> type = Big, category = CatSize, multiplier = 19 / 10 \<rparr>],
       lockedPredictions = [\<lparr> type = Big, category = CatSize, multiplier = 19 / 10 \<rparr>],
       lastResult = None,
       history = [],
       settings = \<lparr> soundEnabled = True, animationsEnabled = True \<rparr>,
       mode = Demo,
       selectedDuration = 10,
       bettingActivity = [] \<rparr>"
  by (simp add: betThenTimeout_def initialState_def addPrediction_def tick_def
        PREDICTION_MULTIPLIERS_def)

lemma betThenTimeout_admissible: "admissible betThenTimeout initialState"
  by (simp add: betThenTimeout_def initialState_def addPrediction_def tick_def
        PREDICTION_MULTIPLIERS_def)

lemma admissible_reachable:
  "reachable s \<Longrightarrow> admissible es s \<Longrightarrow> reachable (run es s)"
proof (induction es arbitrary: s)
  case Nil
  then show ?case by simp
next
  case (Cons e es)
  from Cons.prems have "reachable (apply_event e s)" and "admissible es (apply_event e s)"
    by (simp_all add: reachable_step)
  then show ?case using Cons.IH by simp
qed

lemma betThenTimeout_reachable: "reachable (run betThenTimeout initialState)"
  by (rule admissible_reachable [OF reachable_init betThenTimeout_admissible])

section \<open>Starting a new round\<close>

text \<open>
  Claim C1. When a new round starts, the machine is in the betting phase again, the
  round's duration is the currently selected duration, the time remaining is that same
  duration, and the active and the locked predictions are both empty. The selected
  duration itself is kept.
\<close>

theorem startNewRound_resets:
  "phase (currentRound (startNewRound s)) = Betting \<and>
   Round.duration (currentRound (startNewRound s)) = selectedDuration s \<and>
   timeRemaining (currentRound (startNewRound s)) = selectedDuration s \<and>
   activePredictions (startNewRound s) = [] \<and>
   lockedPredictions (startNewRound s) = [] \<and>
   selectedDuration (startNewRound s) = selectedDuration s"
  by (simp add: startNewRound_def)

section \<open>The win evaluator\<close>

lemma checkWinnings_foldl:
  "foldl (\<lambda>winners prediction.
            if isWin r prediction then winners @ [prediction] else winners) acc ps
   = acc @ filter (isWin r) ps"
  by (induction ps arbitrary: acc) simp_all

lemma isWin_winsSpec: "isWin r p = winsSpec r p"
  by (cases "category p") (auto simp: isWin_def winsSpec_def)

text \<open>For a prediction as \<open>addPrediction\<close> builds it, with the category of its kind,
  the rule depends on the kind alone.\<close>

lemma winsSpec_catalog:
  "category p = categoryOf (type p) \<Longrightarrow>
   winsSpec r p =
     (type p = Big \<and> number r \<ge> 5 \<or> type p = Small \<and> number r < 5 \<or>
      type p = PColor (color r) \<or> type p = Num (number r))"
  by (cases "type p"; cases "color r") (auto simp: winsSpec_def)

text \<open>
  Claim C2. For every result and every list of predictions, the winners returned are
  exactly the predictions of the list, in their order, that win by the rule of the
  specification (big with a number of at least 5, small with a number below 5, a color
  bet on the drawn color, a number bet on the drawn number); they are among the
  predictions given. Being a function of the result and the list alone, the evaluator
  returns the same winners for the same inputs.
\<close>

theorem checkWinnings_spec:
  "checkWinnings r ps = filter (winsSpec r) ps \<and> set (checkWinnings r ps) \<subseteq> set ps"
proof -
  have "checkWinnings r ps = filter (isWin r) ps"
    by (simp add: checkWinnings_def checkWinnings_foldl)
  moreover have "isWin r = winsSpec r"
    by (rule ext) (rule isWin_winsSpec)
  ultimately show ?thesis by auto
qed

text \<open>The scenario of the specification: big and red against the draw of a red 7;
  small against an 8.\<close>

theorem checkWinnings_spec_witness:
  "checkWinnings \<lparr> number = 7, color = Red, timestamp = 0, RoundResult.duration = 10 \<rparr>
     [\<lparr> type = Big, category = CatSize, multiplier = 19 / 10 \<rparr>,
      \<lparr> type = PColor Red, category = CatColor, multiplier = 28 / 10 \<rparr>]
   = [\<lparr> type = Big, category = CatSize, multiplier = 19 / 10 \<rparr>,
      \<lparr> type = PColor Red, category = CatColor, multiplier = 28 / 10 \<rparr>] \<and>
   checkWinnings \<lparr> number = 8, color = Red, timestamp = 0, RoundResult.duration = 10 \<rparr>
     [\<lparr> type = Small, category = CatSize, multiplier = 19 / 10 \<rparr>] = []"
  using checkWinnings_spec
          [of "\<lparr> number = 7, color = Red, timestamp = 0, RoundResult.duration = 10 \<rparr>"
              "[\<lparr> type = Big, category = CatSize, multiplier = 19 / 10 \<rparr>,
                \<lparr> type = PColor Red, category = CatColor, multiplier = 28 / 10 \<rparr>]"]
        checkWinnings_spec
          [of "\<lparr> number = 8, color = Red, timestamp = 0, RoundResult.duration = 10 \<rparr>"
              "[\<lparr> type = Small, category = CatSize, multiplier = 19 / 10 \<rparr>]"]
  by (simp add: winsSpec_def)

section \<open>Adding a prediction\<close>

text \<open>
  Claim C3. If the active predictions hold at most one prediction per category, they
  still do after \<open>addPrediction\<close>, whatever the kind added. When the bet is accepted
  (betting phase, time left), the new prediction is the only one of its category in the
  new list, and the predictions of the other categories are those of the old list, in
  their order.
\<close>

theorem addPrediction_one_per_category:
  assumes "onePerCategory (activePredictions s)"
  shows "onePerCategory (activePredictions (snd (addPrediction t s))) \<and>
         (phase (currentRound s) = Betting \<and> timeRemaining (currentRound s) \<noteq> 0 \<longrightarrow>
            fst (addPrediction t s) = None \<and>
            filter (\<lambda>p. category p = categoryOf t) (activePredictions (snd (addPrediction t s)))
              = [\<lparr> type = t, category = categoryOf t, multiplier = multiplierOf t \<rparr>] \<and>
            filter (\<lambda>p. category p \<noteq> categoryOf t)
                (activePredictions (snd (addPrediction t s)))
              = filter (\<lambda>p. category p \<noteq> categoryOf t) (activePredictions s))"
  using assms
  apply (simp add: addPrediction_def onePerCategory_def Let_def del: categoryOf.simps)
  apply (auto simp: distinct_map_filter simp del: categoryOf.simps)
  done

text \<open>After a bet on big, a bet on small takes its place.\<close>

theorem addPrediction_one_per_category_witness:
  "onePerCategory (activePredictions (run betPlaced initialState)) \<and>
   phase (currentRound (run betPlaced initialState)) = Betting \<and>
   timeRemaining (currentRound (run betPlaced initialState)) \<noteq> 0 \<and>
   onePerCategory
     (activePredictions (snd (addPrediction Small (run betPlaced initialState)))) \<and>
   activePredictions (snd (addPrediction Small (run betPlaced initialState)))
     = [\<lparr> type = Small, category = CatSize, multiplier = 19 / 10 \<rparr>]"
proof -
  have h: "onePerCategory (activePredictions (run betPlaced initialState))"
    by (simp add: betPlaced_state onePerCategory_def)
  show ?thesis
    using h addPrediction_one_per_category [OF h, of Small]
    by (simp add: betPlaced_state addPrediction_def PREDICTION_MULTIPLIERS_def)
qed

text \<open>
  Claim C4. In every state whose phase is not betting, or whose time remaining is 0,
  \<open>addPrediction\<close> is rejected: it raises the error toast that betting is closed and
  returns the state it was given, active predictions included.
\<close>

theorem addPrediction_rejected:
  "phase (currentRound s) \<noteq> Betting \<or> timeRemaining (currentRound s) = 0 \<Longrightarrow>
   addPrediction t s = (Some (ToastError BettingClosed), s)"
  by (auto simp: addPrediction_def)

theorem addPrediction_rejected_witness:
  "phase (currentRound (run betThenTimeout initialState)) \<noteq> Betting \<and>
   addPrediction Small (run betThenTimeout initialState)
     = (Some (ToastError BettingClosed), run betThenTimeout initialState)"
proof -
  have h: "phase (currentRound (run betThenTimeout initialState)) \<noteq> Betting"
    by (simp add: betThenTimeout_state)
  from h have "phase (currentRound (run betThenTimeout initialState)) \<noteq> Betting
      \<or> timeRemaining (currentRound (run betThenTimeout initialState)) = 0" ..
  from h addPrediction_rejected [OF this, of Small] show ?thesis by (rule conjI)
qed

section \<open>Changing the duration\<close>

text \<open>
  Claim C6. For every duration \<open>d\<close> (the three allowed ones among them) and every
  state, \<open>changeDuration\<close> is accepted, with a success toast, and records \<open>d\<close> as the
  selected duration. In the betting phase the current round gets duration \<open>d\<close> and time
  remaining \<open>d\<close> at once and stays in betting; in any other phase the current round
  (duration, time remaining, phase) is unchanged. Predictions, last result and history
  are unchanged in both cases.
\<close>

theorem changeDuration_spec:
  "fst (changeDuration d s) = Some (ToastSuccess (DurationChanged d)) \<and>
   selectedDuration (snd (changeDuration d s)) = d \<and>
   (phase (currentRound s) = Betting \<longrightarrow>
      currentRound (snd (changeDuration d s))
        = \<lparr> Round.duration = d, timeRemaining = d, phase = Betting \<rparr>) \<and>
   (phase (currentRound s) \<noteq> Betting \<longrightarrow>
      currentRound (snd (changeDuration d s)) = currentRound s) \<and>
   activePredictions (snd (changeDuration d s)) = activePredictions s \<and>
   lockedPredictions (snd (changeDuration d s)) = lockedPredictions s \<and>
   lastResult (snd (changeDuration d s)) = lastResult s \<and>
   history (snd (changeDuration d s)) = history s"
  by (cases "currentRound s") (auto simp: changeDuration_def)

text \<open>The scenario of the specification (10 to 20 with 4 seconds left, in betting), and
  the same request while resolving.\<close>

theorem changeDuration_spec_witness:
  "allowedDuration 20 \<and>
   currentRound (snd (changeDuration 20
      (initialState\<lparr> currentRound :=
         \<lparr> Round.duration = 10, timeRemaining = 4, phase = Betting \<rparr> \<rparr>)))
     = \<lparr> Round.duration = 20, timeRemaining = 20, phase = Betting \<rparr> \<and>
   phase (currentRound (run betThenTimeout initialState)) \<noteq> Betting \<and>
   currentRound (snd (changeDuration 20 (run betThenTimeout initialState)))
     = \<lparr> Round.duration = 10, timeRemaining = 0, phase = Resolving \<rparr> \<and>
   selectedDuration (snd (changeDuration 20 (run betThenTimeout initialState))) = 20"
  using changeDuration_spec
          [of 20 "initialState\<lparr> currentRound :=
                    \<lparr> Round.duration = 10, timeRemaining = 4, phase = Betting \<rparr> \<rparr>"]
        changeDuration_spec [of 20 "run betThenTimeout initialState"]
  by (simp add: betThenTimeout_state allowedDuration_def)

section \<open>The prediction catalog\<close>

text \<open>
  Claim C9. The catalog is a fixed table, defined for every kind: big and small have
  category size and multiplier 1.9; each color has category color and multiplier 2.8;
  every number (0 to 9 among them) has category number and multiplier 9. The category
  and the multiplier are functions of the kind, so a kind has one category, and neither
  lookup can fail.
\<close>

theorem catalog_table:
  "categoryOf Big = CatSize \<and> multiplierOf Big = 19 / 10 \<and>
   categoryOf Small = CatSize \<and> multiplierOf Small = 19 / 10 \<and>
   categoryOf (PColor c) = CatColor \<and> multiplierOf (PColor c) = 28 / 10 \<and>
   categoryOf (Num n) = CatNumber \<and> multiplierOf (Num n) = 9"
  by (cases c) (simp_all add: PREDICTION_MULTIPLIERS_def)

section \<open>Clearing the predictions\<close>

text \<open>
  Claim C5, as stated, fails on the handler: \<open>clearPredictions\<close> has no guard. In the
  state reached by betting on big and letting the first round time out (phase resolving),
  it empties the active predictions and so changes the state.
\<close>

theorem clearPredictions_counterexample:
  "admissible betThenTimeout initialState \<and>
   phase (currentRound (run betThenTimeout initialState)) = Resolving \<and>
   activePredictions (run betThenTimeout initialState)
     = [\<lparr> type = Big, category = CatSize, multiplier = 19 / 10 \<rparr>] \<and>
   activePredictions (clearPredictions (run betThenTimeout initialState)) = [] \<and>
   clearPredictions (run betThenTimeout initialState) \<noteq> run betThenTimeout initialState"
  using betThenTimeout_admissible
  by (simp add: betThenTimeout_state clearPredictions_def)

text \<open>
  Claim C5, amended. \<open>clearPredictions\<close> empties the active predictions in every phase,
  changes nothing else and signals nothing. The restriction to the betting phase is the
  Clear button's: outside betting the button is disabled and a click leaves the whole
  state as it is; in betting a click has the effect of \<open>clearPredictions\<close>.
\<close>

theorem clearPredictions_unguarded:
  "clearPredictions s = s\<lparr> activePredictions := [] \<rparr> \<and>
   (phase (currentRound s) \<noteq> Betting \<longrightarrow> clearDisabled s \<and> clickClear s = s) \<and>
   (phase (currentRound s) = Betting \<longrightarrow> clickClear s = clearPredictions s)"
  by (auto simp: clearPredictions_def clickClear_def clearDisabled_def)

theorem clearPredictions_unguarded_witness:
  "phase (currentRound (run betThenTimeout initialState)) \<noteq> Betting \<and>
   clickClear (run betThenTimeout initialState) = run betThenTimeout initialState \<and>
   phase (currentRound (run betPlaced initialState)) = Betting \<and>
   activePredictions (clickClear (run betPlaced initialState)) = []"
  using clearPredictions_unguarded [of "run betThenTimeout initialState"]
        clearPredictions_unguarded [of "run betPlaced initialState"]
  by (simp add: betThenTimeout_state betPlaced_state)

section \<open>Resolving a round\<close>

lemma take_append_take: "take n (xs @ take n ys) = take n (xs @ ys)"
  by (simp add: min_def)

lemma history_endRound:
  "history (snd (endRound e1 e2 now s)) = take 10 (generateResult e1 e2 now s # history s)"
  by (simp add: endRound_def Let_def)

lemma history_apply_event:
  "history (apply_event e s) =
     (case e of EndRound e1 e2 now \<Rightarrow> take 10 (generateResult e1 e2 now s # history s)
              | _ \<Rightarrow> history s)"
  by (cases e)
     (simp_all add: history_endRound tick_def Let_def startNewRound_def addPrediction_def
        placePredictions_def clearPredictions_def changeDuration_def addActivity_def
        setSound_def setAnimations_def)

lemma history_run:
  "history (run es s) =
     (if results es s = [] then history s else take 10 (rev (results es s) @ history s))"
proof (induction es arbitrary: s)
  case Nil
  show ?case by simp
next
  case (Cons e es)
  show ?case
  proof (cases e)
    case (EndRound e1 e2 now)
    let ?s' = "apply_event e s"
    have h': "history ?s' = take 10 (generateResult e1 e2 now s # history s)"
      using EndRound by (simp add: history_apply_event del: apply_event.simps)
    have "history (run (e # es) s) = history (run es ?s')" by simp
    also have "\<dots> = take 10 (rev (results es ?s') @ generateResult e1 e2 now s # history s)"
      by (simp only: Cons.IH h' take_append_take split: if_splits) simp
    finally show ?thesis using EndRound by simp
  qed (simp_all add: Cons.IH history_apply_event del: apply_event.simps)
qed

text \<open>
  Claim C7. \<open>endRound\<close> stores the new result as the last result and puts it in front
  of the history, keeping the first 10 entries of the list so extended (the oldest falls
  off a full history), and enters showing-result. Hence, from any state and so from any
  initial history, a run in which 11 results are generated, whatever else happens in
  between, ends with a history that is exactly the 10 most recent of them, most recent
  first.
\<close>

theorem endRound_history:
  "lastResult (snd (endRound e1 e2 now s)) = Some (generateResult e1 e2 now s) \<and>
   history (snd (endRound e1 e2 now s)) = take 10 (generateResult e1 e2 now s # history s) \<and>
   length (history (snd (endRound e1 e2 now s))) \<le> 10 \<and>
   phase (currentRound (snd (endRound e1 e2 now s))) = ShowingResult \<and>
   (length (results es s) = 11 \<longrightarrow>
      history (run es s) = take 10 (rev (results es s)) \<and>
      length (history (run es s)) = 10)"
proof -
  have "history (run es s) = take 10 (rev (results es s))
        \<and> length (history (run es s)) = 10"
    if "length (results es s) = 11"
  proof -
    from that have "results es s \<noteq> []" by auto
    then have "history (run es s) = take 10 (rev (results es s) @ history s)"
      by (simp add: history_run)
    then show ?thesis using that by simp
  qed
  then show ?thesis
    by (simp add: endRound_def Let_def)
qed

lemma timestamp_generateResult: "timestamp (generateResult e1 e2 now s) = now"
  by (simp add: generateResult_def)

theorem endRound_history_witness:
  "length (results elevenRounds initialState) = 11 \<and>
   map timestamp (results elevenRounds initialState) = [0, 1, 2, 3, 4, 5, 6, 7, 8, 9, 10] \<and>
   map timestamp (history (run elevenRounds initialState)) = [10, 9, 8, 7, 6, 5, 4, 3, 2, 1]"
proof -
  have r: "map timestamp (results elevenRounds initialState)
             = [0, 1, 2, 3, 4, 5, 6, 7, 8, 9, 10]"
    by (simp add: elevenRounds_def timestamp_generateResult del: apply_event.simps)
  have l: "length (results elevenRounds initialState) = 11"
    by (simp add: elevenRounds_def del: apply_event.simps)
  have "history (run elevenRounds initialState)
          = take 10 (rev (results elevenRounds initialState))"
    using endRound_history [of "Crypto 0" "Crypto 0" 0 initialState elevenRounds] l
    by (simp only:)
  then have "map timestamp (history (run elevenRounds initialState))
     = take 10 (rev (map timestamp (results elevenRounds initialState)))"
    by (simp only: take_map rev_map)
  then show ?thesis using r l by simp
qed

section \<open>The generated result\<close>

lemma excess_upper: "M < 2 ^ 53 * 2 ^ excess M"
proof (induction M rule: excess.induct)
  case (1 M)
  show ?case
  proof (cases "M < 2 ^ 53")
    case True
    then show ?thesis by (simp add: excess.simps [of M])
  next
    case False
    then have "M div 2 < 2 ^ 53 * 2 ^ excess (M div 2)" using 1 by simp
    then have "M < 2 * (2 ^ 53 * 2 ^ excess (M div 2))" by linarith
    then show ?thesis using False by (simp add: excess.simps [of M])
  qed
qed

lemma excess_lower: "0 < excess M \<Longrightarrow> 2 ^ 52 * 2 ^ excess M \<le> M"
proof (induction M rule: excess.induct)
  case (1 M)
  show ?case
  proof (cases "M < 2 ^ 53")
    case True
    then show ?thesis using "1.prems" by (simp add: excess.simps [of M])
  next
    case False
    then have e: "excess M = Suc (excess (M div 2))" by (simp add: excess.simps [of M])
    show ?thesis
    proof (cases "0 < excess (M div 2)")
      case True
      then have "2 ^ 52 * 2 ^ excess (M div 2) \<le> M div 2" using 1 False by simp
      then have "2 * (2 ^ 52 * 2 ^ excess (M div 2)) \<le> M" by linarith
      then show ?thesis by (simp add: e)
    next
      case False': False
      then show ?thesis using False by (simp add: e)
    qed
  qed
qed

lemma half_up_div:
  fixes q r h :: nat
  assumes "r < 2 * h"
  shows "(q * (2 * h) + r + h) div (2 * h) = q + (if r < h then 0 else 1)"
proof (cases "r < h")
  case True
  then have "(q * (2 * h) + (r + h)) div (2 * h) = q"
    using assms by simp
  then show ?thesis using True by (simp add: add.assoc)
next
  case False
  then have "q * (2 * h) + (r + h) = (q + 1) * (2 * h) + (r - h)" and "r - h < 2 * h"
    using assms by simp_all
  then have "(q * (2 * h) + (r + h)) div (2 * h) = q + 1"
    using assms by (simp only: div_mult_self3) simp
  then show ?thesis using False by (simp add: add.assoc)
qed

lemma roundHalfEven_le:
  assumes "0 < s"
  shows "roundHalfEven M s \<le> (M + 2 ^ (s - 1)) div 2 ^ s"
proof -
  define q where "q = M div 2 ^ s"
  define r where "r = M mod 2 ^ s"
  define h :: nat where "h = 2 ^ (s - 1)"
  have M: "M = q * 2 ^ s + r"
    unfolding q_def r_def by (rule div_mult_mod_eq [symmetric])
  have r: "r < 2 ^ s" by (simp add: r_def)
  have p: "(2::nat) ^ s = 2 * h" using assms by (simp add: h_def flip: power_Suc)
  have "(M + h) div (2 * h) = q + (if r < h then 0 else 1)"
    using half_up_div [of r h q] r M by (simp only: p)
  then have up: "(M + 2 ^ (s - 1)) div 2 ^ s = q + (if r < h then 0 else 1)"
    by (simp only: p h_def)
  have "roundHalfEven M s =
          (if r < h then q else if h < r then q + 1 else if even q then q else q + 1)"
    using assms unfolding roundHalfEven_def q_def r_def h_def Let_def by simp
  then have "roundHalfEven M s \<le> q + (if r < h then 0 else 1)" by simp
  then show ?thesis by (simp only: up)
qed


lemma rounded_below:
  fixes m n k :: nat
  assumes m: "m < 2 ^ k" and m53: "m < 2 ^ 53" and n0: "0 < n" and n53: "n < 2 ^ 53"
  shows "excess (m * n) \<le> k \<and>
         roundHalfEven (m * n) (excess (m * n)) < n * 2 ^ (k - excess (m * n))"
proof (cases "excess (m * n) = 0")
  case True
  have "m * n < 2 ^ k * n" using m n0 by simp
  then show ?thesis using True by (simp add: roundHalfEven_def mult.commute)
next
  case False
  define s where "s = excess (m * n)"
  define h :: nat where "h = 2 ^ (s - 1)"
  have s0: "0 < s" using False by (simp add: s_def)
  have p: "(2::nat) ^ s = 2 * h" using s0 by (simp add: h_def flip: power_Suc)
  have low: "2 ^ 52 * 2 ^ s \<le> m * n"
    using excess_lower [of "m * n"] s0 by (simp add: s_def)
  have "m * n < 2 ^ 53 * n" using m53 n0 by simp
  then have "(2::nat) ^ 52 * 2 ^ s < 2 ^ 53 * n" using low by linarith
  then have hn: "h < n" by (simp add: p)
  have "m * n < 2 ^ k * n" using m n0 by simp
  also have "\<dots> < 2 ^ k * 2 ^ 53" using n53 by simp
  finally have "(2::nat) ^ 52 * 2 ^ s < 2 ^ 53 * 2 ^ k" using low by (simp add: mult.commute)
  then have "(2::nat) ^ s < 2 ^ Suc k" by simp
  then have sk: "s \<le> k" by (simp del: power_Suc)
  have "Suc m * n \<le> 2 ^ k * n" using m by (intro mult_le_mono1) simp
  then have "m * n + h < 2 ^ k * n" using hn by simp
  also have "(2::nat) ^ k * n = (n * 2 ^ (k - s)) * 2 ^ s"
    using sk by (simp add: mult.commute flip: power_add)
  finally have "(m * n + h) div 2 ^ s < n * 2 ^ (k - s)"
    by (rule less_mult_imp_div_less)
  moreover have "roundHalfEven (m * n) s \<le> (m * n + h) div 2 ^ s"
    using roundHalfEven_le [OF s0, of "m * n"] by (simp only: h_def)
  ultimately show ?thesis using sk by (simp add: s_def)
qed

lemma excess_zero: "excess 0 = 0"
  by (simp add: excess.simps [of 0])

lemma mathFloor_multiply_range:
  assumes u: "belowOne u" and mx0: "0 < mx" and mx53: "mx < 2 ^ 53"
  shows "0 \<le> getRandomInt (MathRandom u) mx \<and> getRandomInt (MathRandom u) mx < mx"
proof -
  define g where "g = getRandomInt (MathRandom u) mx"
  define n where "n = nat mx"
  define m where "m = mantissa u"
  define s where "s = excess (m * n)"
  define M' where "M' = roundHalfEven (m * n) s"
  have n: "0 < n" "n < 2 ^ 53" "mx = int n" using mx0 mx53 by (simp_all add: n_def)
  have f: "g =
        (if 0 \<le> exponent u + int s then int M' * 2 ^ nat (exponent u + int s)
         else int M' div 2 ^ nat (- (exponent u + int s)))"
    using mx0
    by (simp add: g_def multiply_def mathFloor_def Let_def n_def m_def s_def M'_def)
  have nonneg: "0 \<le> g"
    by (simp add: f pos_imp_zdiv_nonneg_iff)
  have "g < mx"
  proof (cases "m = 0")
    case True
    then show ?thesis using mx0
      by (simp add: f s_def M'_def excess_zero roundHalfEven_def)
  next
    case False
    define k where "k = nat (- exponent u)"
    from False u have e: "exponent u = - int k" and mk: "m < 2 ^ k" and m53: "m < 2 ^ 53"
      by (simp_all add: belowOne_def isDouble_def m_def k_def)
    have r: "s \<le> k" "M' < n * 2 ^ (k - s)"
      using rounded_below [OF mk m53 n(1) n(2)] by (simp_all add: s_def M'_def)
    show ?thesis
    proof (cases "s = k")
      case True
      then have "g = int M'" by (simp add: f e)
      then show ?thesis using True r(2) n(3) by simp
    next
      case False
      then have lt: "s < k" using r(1) by simp
      then have neg: "\<not> 0 \<le> exponent u + int s"
        and nk: "nat (- (exponent u + int s)) = k - s" by (simp_all add: e)
      have "M' div 2 ^ (k - s) < n"
        using r(2) by (rule less_mult_imp_div_less)
      then have "int (M' div 2 ^ (k - s)) < int n" by simp
      then have "int M' div 2 ^ (k - s) < int n"
        by (simp only: zdiv_int of_nat_power of_nat_numeral)
      moreover have "g = int M' div 2 ^ (k - s)"
        by (simp only: f neg nk if_False)
      ultimately show ?thesis using n(3) by simp
    qed
  qed
  then show ?thesis using nonneg by (simp only: g_def simp_thms)
qed

lemma getRandomInt_range:
  assumes "validEntropy e" and "0 < mx" and "mx < 2 ^ 53"
  shows "0 \<le> getRandomInt e mx \<and> getRandomInt e mx < mx"
proof (cases e)
  case (Crypto w)
  then show ?thesis using assms by simp
next
  case (MathRandom u)
  then have "belowOne u" using assms(1) by simp
  then show ?thesis unfolding MathRandom using assms(2,3) by (rule mathFloor_multiply_range)
qed

lemma fibres_sum:
  fixes f :: "nat \<Rightarrow> int"
  assumes "\<forall>i<N. 0 \<le> f i \<and> f i < t"
  shows "(\<Sum>j\<in>{0..<t}. card {i. i < N \<and> f i = j}) = N"
proof -
  have "card (\<Union>j\<in>{0..<t}. {i. i < N \<and> f i = j})
          = (\<Sum>j\<in>{0..<t}. card {i. i < N \<and> f i = j})"
    by (rule card_UN_disjoint) auto
  moreover have "(\<Union>j\<in>{0..<t}. {i. i < N \<and> f i = j}) = {i. i < N}"
    using assms by auto
  ultimately show ?thesis by simp
qed

lemma equal_fibres_divide:
  fixes f :: "nat \<Rightarrow> int"
  assumes "\<forall>i<N. 0 \<le> f i \<and> f i < t"
    and "\<forall>j\<in>{0..<t}. card {i. i < N \<and> f i = j} = c"
  shows "nat t * c = N"
proof -
  have "(\<Sum>j\<in>{0..<t}. card {i. i < N \<and> f i = j}) = (\<Sum>j\<in>{0..<t}. c)"
    using assms(2) by (intro sum.cong) simp_all
  then show ?thesis using fibres_sum [OF assms(1)] by simp
qed

lemma pow2_mod_5: "(2::nat) ^ n mod 5 \<in> {1, 2, 3, 4}"
proof (induction n)
  case 0
  show ?case by simp
next
  case (Suc n)
  have "(2::nat) ^ Suc n mod 5 = (2 * (2 ^ n mod 5)) mod 5"
    by (simp add: mod_mult_right_eq)
  then show ?case using Suc by auto
qed

lemma pow2_mod_3: "(2::nat) ^ n mod 3 \<in> {1, 2}"
proof (induction n)
  case 0
  show ?case by simp
next
  case (Suc n)
  have "(2::nat) ^ Suc n mod 3 = (2 * (2 ^ n mod 3)) mod 3"
    by (simp add: mod_mult_right_eq)
  then show ?case using Suc by auto
qed

lemma ten_times_not_pow2: "10 * c \<noteq> (2::nat) ^ n"
proof
  assume "10 * c = (2::nat) ^ n"
  then have "(2::nat) ^ n mod 5 = (5 * (2 * c)) mod 5" by simp
  then have "(2::nat) ^ n mod 5 = 0" by (simp only: mod_mult_self1_is_0)
  then show False using pow2_mod_5 [of n] by simp
qed

lemma three_times_not_pow2: "3 * c \<noteq> (2::nat) ^ n"
proof
  assume "3 * c = (2::nat) ^ n"
  then have "(2::nat) ^ n mod 3 = (3 * c) mod 3" by simp
  then have "(2::nat) ^ n mod 3 = 0" by (simp only: mod_mult_self1_is_0)
  then show False using pow2_mod_3 [of n] by simp
qed

lemma mod_shift_zero:
  fixes k m N :: nat
  assumes "k < m"
  shows "(N + (m - k)) mod m = 0 \<longleftrightarrow> N mod m = k"
proof -
  define r where "r = N mod m"
  have r: "r < m" using assms by (simp add: r_def)
  have eq: "(N + (m - k)) mod m = (r + (m - k)) mod m"
    by (simp add: r_def mod_add_left_eq)
  consider "r = k" | "r < k" | "k < r" by linarith
  then have "(r + (m - k)) mod m = 0 \<longleftrightarrow> r = k"
  proof cases
    case 1
    then show ?thesis using assms by simp
  next
    case 2
    then have "r + (m - k) < m" "0 < r + (m - k)" using assms by simp_all
    then show ?thesis using 2 assms by simp
  next
    case 3
    then have "m \<le> r + (m - k)" "r + (m - k) - m < m" "0 < r + (m - k) - m"
      using assms r by simp_all
    then show ?thesis using 3 by (simp add: le_mod_geq)
  qed
  then show ?thesis by (simp add: eq r_def)
qed

lemma card_mod_eq:
  fixes k m N :: nat
  assumes "k < m"
  shows "card {n. n < N \<and> n mod m = k} = (N + (m - Suc k)) div m"
proof (induction N)
  case 0
  then show ?case using assms by simp
next
  case (Suc N)
  define a where "a = N + (m - Suc k)"
  have fin: "finite {n. n < N \<and> n mod m = k}" by simp
  have sa: "Suc a = N + (m - k)" using assms by (simp add: a_def)
  have zero: "Suc a mod m = 0 \<longleftrightarrow> N mod m = k"
    using mod_shift_zero [OF assms, of N] by (simp only: sa)
  have "Suc N + (m - Suc k) = Suc a" by (simp add: a_def)
  then have dv: "(Suc N + (m - Suc k)) div m = (if N mod m = k then Suc (a div m) else a div m)"
    using zero by (simp only: div_Suc)
  show ?case
  proof (cases "N mod m = k")
    case True
    then have "{n. n < Suc N \<and> n mod m = k} = insert N {n. n < N \<and> n mod m = k}"
      by (auto simp: less_Suc_eq)
    then have "card {n. n < Suc N \<and> n mod m = k} = Suc (a div m)"
      using Suc.IH fin by (simp add: a_def)
    then show ?thesis using True dv by simp
  next
    case False
    then have "{n. n < Suc N \<and> n mod m = k} = {n. n < N \<and> n mod m = k}"
      by (auto simp: less_Suc_eq)
    then have "card {n. n < Suc N \<and> n mod m = k} = a div m"
      using Suc.IH by (simp add: a_def)
    then show ?thesis using False dv by simp
  qed
qed

lemma card_word_unat:
  "card {w :: 32 word. P (unat w)} = card {n. n < 2 ^ 32 \<and> P n}"
proof -
  have "bij_betw unat {w :: 32 word. P (unat w)} {n. n < 2 ^ 32 \<and> P n}"
  proof (rule bij_betw_byWitness [where f' = of_nat])
    show "\<forall>w \<in> {w :: 32 word. P (unat w)}. of_nat (unat w) = w" by simp
    show "\<forall>n \<in> {n. n < 2 ^ 32 \<and> P n}. unat (of_nat n :: 32 word) = n"
      by (simp add: unat_of_nat)
    show "unat ` {w :: 32 word. P (unat w)} \<subseteq> {n. n < 2 ^ 32 \<and> P n}"
    proof -
      have "unat w < 2 ^ 32" for w :: "32 word"
        using unsigned_less [of w, where 'a = nat] by simp
      then show ?thesis by auto
    qed
    show "of_nat ` {n. n < 2 ^ 32 \<and> P n} \<subseteq> {w :: 32 word. P (unat w)}"
      by (auto simp: unat_of_nat)
  qed
  then show ?thesis by (rule bij_betw_same_card)
qed

lemma preimages_count:
  assumes "0 < m"
  shows "preimages (int m) (int k) = (if k < m then (2 ^ 32 + (m - Suc k)) div m else 0)"
proof -
  have "uint w mod int m = int k \<longleftrightarrow> unat w mod m = k" for w :: "32 word"
  proof -
    have "uint w mod int m = int (unat w mod m)"
      by (simp only: uint_nat zmod_int)
    then show ?thesis by (simp only: of_nat_eq_iff)
  qed
  then have "{w :: 32 word. getRandomInt (Crypto w) (int m) = int k}
          = {w :: 32 word. unat w mod m = k}"
    by (simp only: getRandomInt.simps)
  then have "preimages (int m) (int k) = card {n. n < 2 ^ 32 \<and> n mod m = k}"
    by (simp add: preimages_def card_word_unat [where P = "\<lambda>n. n mod m = k"])
  also have "\<dots> = (if k < m then (2 ^ 32 + (m - Suc k)) div m else 0)"
  proof (cases "k < m")
    case True
    then show ?thesis by (simp add: card_mod_eq)
  next
    case False
    then have "{n. n < 2 ^ 32 \<and> n mod m = k} = {}" using assms
      by (auto simp: not_less) (metis mod_less_divisor not_less)
    then show ?thesis using False by simp
  qed
  finally show ?thesis .
qed


lemma preimages_negative: "k < 0 \<Longrightarrow> 0 < mx \<Longrightarrow> preimages mx k = 0"
proof -
  assume "k < 0" "0 < mx"
  then have "uint w mod mx \<noteq> k" for w :: "32 word"
    using pos_mod_sign [of mx "uint w"] by linarith
  then have "{w :: 32 word. getRandomInt (Crypto w) mx = k} = {}" by simp
  then show ?thesis by (simp add: preimages_def)
qed

lemma preimages_10:
  "preimages 10 k =
     (if 0 \<le> k \<and> k \<le> 5 then 429496730 else if 6 \<le> k \<and> k \<le> 9 then 429496729 else 0)"
proof (cases "k < 0")
  case True
  then show ?thesis by (simp add: preimages_negative)
next
  case False
  then have k: "k = int (nat k)" by simp
  have "preimages 10 (int (nat k)) =
          (if nat k < 10 then (2 ^ 32 + (10 - Suc (nat k))) div 10 else 0)"
    using preimages_count [of 10 "nat k"] by simp
  then have "preimages 10 k = (if nat k < 10 then (4294967305 - nat k) div 10 else 0)"
    using k by simp
  then show ?thesis using False by (auto split: if_splits)
qed

lemma preimages_3:
  "preimages 3 k =
     (if k = 0 then 1431655766 else if k = 1 \<or> k = 2 then 1431655765 else 0)"
proof (cases "k < 0")
  case True
  then show ?thesis by (simp add: preimages_negative)
next
  case False
  then have k: "k = int (nat k)" by simp
  have "preimages 3 (int (nat k)) =
          (if nat k < 3 then (2 ^ 32 + (3 - Suc (nat k))) div 3 else 0)"
    using preimages_count [of 3 "nat k"] by simp
  then have "preimages 3 k = (if nat k < 3 then (4294967298 - nat k) div 3 else 0)"
    using k by simp
  then show ?thesis using False by (auto split: if_splits)
qed

lemma outcomes_not_equal_10:
  assumes "validGenerator n gen"
  shows "\<not> (\<forall>j\<in>{0..9}. outcomes n gen 10 j = c)"
proof
  assume eq: "\<forall>j\<in>{0..9}. outcomes n gen 10 j = c"
  have r: "\<forall>i < 2 ^ n. 0 \<le> getRandomInt (MathRandom (gen i)) 10
                        \<and> getRandomInt (MathRandom (gen i)) 10 < 10"
    using assms getRandomInt_range [of "MathRandom (gen i)" 10 for i]
    by (simp add: validGenerator_def)
  have "{0..9} = {0..<10::int}" by auto
  then have "\<forall>j\<in>{0..<10}. card {i. i < 2 ^ n \<and> getRandomInt (MathRandom (gen i)) 10 = j} = c"
    using eq by (simp add: outcomes_def)
  with r have "nat 10 * c = 2 ^ n" by (rule equal_fibres_divide)
  then show False using ten_times_not_pow2 [of c n] by simp
qed

lemma outcomes_not_equal_3:
  assumes "validGenerator n gen"
  shows "\<not> (\<forall>j\<in>{0..2}. outcomes n gen 3 j = c)"
proof
  assume eq: "\<forall>j\<in>{0..2}. outcomes n gen 3 j = c"
  have r: "\<forall>i < 2 ^ n. 0 \<le> getRandomInt (MathRandom (gen i)) 3
                        \<and> getRandomInt (MathRandom (gen i)) 3 < 3"
    using assms getRandomInt_range [of "MathRandom (gen i)" 3 for i]
    by (simp add: validGenerator_def)
  have "{0..2} = {0..<3::int}" by auto
  then have "\<forall>j\<in>{0..<3}. card {i. i < 2 ^ n \<and> getRandomInt (MathRandom (gen i)) 3 = j} = c"
    using eq by (simp add: outcomes_def)
  with r have "nat 3 * c = 2 ^ n" by (rule equal_fibres_divide)
  then show False using three_times_not_pow2 [of c n] by simp
qed

lemma grid53_valid: "validGenerator 53 grid53"
  by (simp add: validGenerator_def grid53_def belowOne_def isDouble_def)

lemma getRandomInt_point3: "getRandomInt (MathRandom point3) 10 = 3"
  by (simp add: multiply_def mathFloor_def Let_def point3_def excess.simps roundHalfEven_def)

lemma getRandomInt_point7: "getRandomInt (MathRandom point7) 10 = 7"
  by (simp add: multiply_def mathFloor_def Let_def point7_def excess.simps roundHalfEven_def)

text \<open>
  Claim C8, as stated, fails in its exact uniformity, on both paths. On the crypto path
  4294967296 is not a multiple of 10 or of 3: of the 32-bit values, 429496730 give the
  number 0 and 429496729 give the number 9, and the color index 0 has one value more than
  the index 2. On the fallback path, with a \<open>Math.random()\<close> that returns each of the
  9007199254740992 multiples of the 53rd power of 1/2 below 1 equally often, the ten
  numbers are not equally frequent, and neither are the three colors.
\<close>

theorem modulo_uniform_counterexample:
  "preimages 10 0 = 429496730 \<and> preimages 10 9 = 429496729 \<and>
   preimages 10 0 \<noteq> preimages 10 9 \<and>
   preimages 3 0 \<noteq> preimages 3 2 \<and>
   \<not> (\<forall>j\<in>{0..9}. outcomes 53 grid53 10 j = outcomes 53 grid53 10 0) \<and>
   \<not> (\<forall>j\<in>{0..2}. outcomes 53 grid53 3 j = outcomes 53 grid53 3 0)"
  using outcomes_not_equal_10 [OF grid53_valid, of "outcomes 53 grid53 10 0"]
        outcomes_not_equal_3 [OF grid53_valid, of "outcomes 53 grid53 3 0"]
  by (simp add: preimages_10 preimages_3)

text \<open>
  Claim C8, amended. On both entropy paths (any 32-bit value; any double that is at
  least 0 and less than 1 from \<open>Math.random()\<close>, the product rounded as JavaScript
  rounds it) the generated number is in 0..9 and the color index is within the three
  colors, so the color is red, green or blue. Neither path is exactly uniform. On the
  crypto path the reduction is uniform up to one value in 4294967296: the numbers 0 to 5
  have 429496730 preimages each and 6 to 9 have 429496729; the color index 0 has
  1431655766 and the indices 1 and 2 have 1431655765. On the fallback path, whenever
  \<open>Math.random()\<close> derives its value from \<open>n\<close> fair random bits, for whatever \<open>n\<close>
  and in whatever way, the ten numbers do not all have the same count of bit patterns,
  and neither do the three color indices, since neither 10 nor 3 divides a power of 2.
\<close>

theorem generateResult_range:
  assumes "validEntropy e1" and "validEntropy e2"
  shows "0 \<le> number (generateResult e1 e2 now s) \<and> number (generateResult e1 e2 now s) \<le> 9 \<and>
         nat (getRandomInt e2 3) < length colors \<and>
         color (generateResult e1 e2 now s) = colors ! nat (getRandomInt e2 3) \<and>
         color (generateResult e1 e2 now s) \<in> set colors \<and>
         preimages 10 k =
           (if 0 \<le> k \<and> k \<le> 5 then 429496730
            else if 6 \<le> k \<and> k \<le> 9 then 429496729 else 0) \<and>
         preimages 3 k =
           (if k = 0 then 1431655766 else if k = 1 \<or> k = 2 then 1431655765 else 0) \<and>
         (validGenerator n gen \<longrightarrow>
            \<not> (\<forall>j\<in>{0..9}. outcomes n gen 10 j = c) \<and>
            \<not> (\<forall>j\<in>{0..2}. outcomes n gen 3 j = c))"
proof -
  have n: "0 \<le> getRandomInt e1 10 \<and> getRandomInt e1 10 < 10"
    using assms(1) by (rule getRandomInt_range) simp_all
  have c: "0 \<le> getRandomInt e2 3 \<and> getRandomInt e2 3 < 3"
    using assms(2) by (rule getRandomInt_range) simp_all
  have "length colors = 3" by (simp add: colors_def)
  then have i: "nat (getRandomInt e2 3) < length colors"
    using c by linarith
  have g: "number (generateResult e1 e2 now s) = getRandomInt e1 10"
    "color (generateResult e1 e2 now s) = colors ! nat (getRandomInt e2 3)"
    by (simp_all add: generateResult_def)
  have range: "0 \<le> number (generateResult e1 e2 now s) \<and>
      number (generateResult e1 e2 now s) \<le> 9 \<and>
      nat (getRandomInt e2 3) < length colors \<and>
      color (generateResult e1 e2 now s) = colors ! nat (getRandomInt e2 3) \<and>
      color (generateResult e1 e2 now s) \<in> set colors"
    using n i g by (simp only: nth_mem) simp
  have bits: "validGenerator n gen \<longrightarrow>
      \<not> (\<forall>j\<in>{0..9}. outcomes n gen 10 j = c) \<and> \<not> (\<forall>j\<in>{0..2}. outcomes n gen 3 j = c)"
    using outcomes_not_equal_10 [of n gen c] outcomes_not_equal_3 [of n gen c] by blast
  show ?thesis
    using range preimages_10 [of k] preimages_3 [of k] bits by blast
qed

text \<open>The double 0.3 gives the number 3, its product with 10 rounding up to 3; the
  largest 32-bit value gives the color index 0.\<close>

theorem generateResult_range_witness:
  "validEntropy (MathRandom point3) \<and> validEntropy (Crypto 4294967295) \<and>
   number (generateResult (MathRandom point3) (Crypto 4294967295) 0 initialState) = 3 \<and>
   color (generateResult (MathRandom point3) (Crypto 4294967295) 0 initialState) = Red \<and>
   preimages 10 5 = 429496730 \<and> preimages 10 6 = 429496729 \<and>
   preimages 3 0 = 1431655766 \<and> preimages 3 2 = 1431655765 \<and>
   validGenerator 53 grid53 \<and>
   \<not> (\<forall>j\<in>{0..9}. outcomes 53 grid53 10 j = outcomes 53 grid53 10 0)"
proof -
  have v1: "validEntropy (MathRandom point3)"
    by (simp add: belowOne_def isDouble_def point3_def)
  have v2: "validEntropy (Crypto 4294967295)" by simp
  have "number (generateResult (MathRandom point3) (Crypto 4294967295) 0 initialState) = 3"
    by (simp add: generateResult_def getRandomInt_point3 del: getRandomInt.simps)
  moreover
  have "color (generateResult (MathRandom point3) (Crypto 4294967295) 0 initialState) = Red"
    by (simp add: generateResult_def colors_def)
  moreover note v1 v2 grid53_valid
    generateResult_range [OF v1 v2, of 0 initialState 5 53 grid53 "outcomes 53 grid53 10 0"]
    generateResult_range [OF v1 v2, of 0 initialState 6]
    generateResult_range [OF v1 v2, of 0 initialState 0]
    generateResult_range [OF v1 v2, of 0 initialState 2]
  ultimately show ?thesis by simp
qed

section \<open>Time remaining outside the betting phase\<close>

lemma time_zero_outside_betting:
  "reachable s \<Longrightarrow> phase (currentRound s) \<noteq> Betting \<Longrightarrow> timeRemaining (currentRound s) = 0"
proof (induction rule: reachable.induct)
  case reachable_init
  then show ?case by (simp add: initialState_def)
next
  case (reachable_step s e)
  then show ?case
    by (cases e)
       (auto simp: tick_def Let_def endRound_def startNewRound_def addPrediction_def
          placePredictions_def clearPredictions_def changeDuration_def addActivity_def
          setSound_def setAnimations_def split: if_splits)
qed

text \<open>
  Claim C10. In every reachable state whose phase is resolving or showing-result the time
  remaining is 0; every event that can occur there leads to a state that is in betting
  or has time remaining 0; and \<open>placePredictions\<close> is rejected there with an error
  toast and leaves the state unchanged, so its zero-time guard covers the phases other
  than betting.
\<close>

theorem nonbetting_time_zero:
  assumes "reachable s" and "phase (currentRound s) \<noteq> Betting"
  shows "timeRemaining (currentRound s) = 0 \<and>
         (\<exists>m. placePredictions s = (Some (ToastError m), s)) \<and>
         (\<forall>e. enabled e s \<and> phase (currentRound (apply_event e s)) \<noteq> Betting \<longrightarrow>
              timeRemaining (currentRound (apply_event e s)) = 0)"
proof -
  have z: "timeRemaining (currentRound s) = 0"
    using assms by (rule time_zero_outside_betting)
  have "\<exists>m. placePredictions s = (Some (ToastError m), s)"
    using z by (simp add: placePredictions_def)
  moreover have "timeRemaining (currentRound (apply_event e s)) = 0"
    if "enabled e s" "phase (currentRound (apply_event e s)) \<noteq> Betting" for e
    using time_zero_outside_betting [OF reachable_step [OF assms(1) that(1)] that(2)] .
  ultimately show ?thesis using z by blast
qed

theorem nonbetting_time_zero_witness:
  "reachable (run betThenTimeout initialState) \<and>
   phase (currentRound (run betThenTimeout initialState)) = Resolving \<and>
   timeRemaining (currentRound (run betThenTimeout initialState)) = 0 \<and>
   placePredictions (run betThenTimeout initialState)
     = (Some (ToastError TimeIsUp), run betThenTimeout initialState) \<and>
   enabled (EndRound (Crypto 7) (Crypto 0) 0) (run betThenTimeout initialState) \<and>
   phase (currentRound
     (apply_event (EndRound (Crypto 7) (Crypto 0) 0) (run betThenTimeout initialState)))
     = ShowingResult \<and>
   timeRemaining (currentRound
     (apply_event (EndRound (Crypto 7) (Crypto 0) 0) (run betThenTimeout initialState))) = 0"
proof -
  have p: "phase (currentRound (run betThenTimeout initialState)) \<noteq> Betting"
    by (simp add: betThenTimeout_state)
  have e: "enabled (EndRound (Crypto 7) (Crypto 0) 0) (run betThenTimeout initialState)"
    by (simp add: betThenTimeout_state)
  have q: "phase (currentRound
     (apply_event (EndRound (Crypto 7) (Crypto 0) 0) (run betThenTimeout initialState)))
     = ShowingResult"
    by (simp add: endRound_def Let_def)
  note inst = nonbetting_time_zero [OF betThenTimeout_reachable p]
  from inst have "timeRemaining (currentRound
     (apply_event (EndRound (Crypto 7) (Crypto 0) 0) (run betThenTimeout initialState))) = 0"
    using e q by (metis GamePhase.distinct(3))
  then show ?thesis
    using betThenTimeout_reachable inst e q
    by (simp add: betThenTimeout_state placePredictions_def)
qed

end
